theory Spec2Isabelle
  imports Main
begin

section \<open>Data model of \<open>src/index.js\<close>\<close>

text \<open>
  A Discord user object, as far as the program reads it: \<open>user.id\<close>, \<open>user.username\<close>,
  \<open>user.tag\<close> and \<open>user.bot\<close>. The identifier and the user name are separate fields.
\<close>

record user =
  id_user :: string
  username :: string
  tag :: string
  bot_user :: bool

text \<open>
  The object literal \<open>{ ram, disk, cpu }\<close> built by the deploy command from three integer
  options. The options are declared with \<open>addIntegerOption\<close> and no lower bound, so each
  field is an arbitrary integer.
\<close>

record vps_specs =
  ram :: int
  disk :: int
  cpu :: int

text \<open>
  The object literal \<open>newVps\<close> of \<open>createLxc\<close>. The status is a JavaScript string
  (\<open>'offline'\<close>, \<open>'online'\<close>, \<open>'rebooting'\<close>) and is kept as a string.
\<close>

record vps =
  id_vps :: string
  owner :: user
  specs :: vps_specs
  status :: string
  tmateSession :: string

text \<open>
  The mutable state: the two fields of class \<open>VpsManager\<close> (\<open>vpsDatabase\<close>, a \<open>Map\<close> keyed
  by \<open>user.id\<close>, and \<open>vpsIdCounter\<close>), together with the part of the JavaScript runtime
  that \<open>performAction\<close> touches through \<open>setTimeout\<close>: a clock in milliseconds and the
  list of pending callbacks. Every callback registered by the program is
  \<open>() => { vps.status = 'online'; }\<close>, so a pending callback is its due time and the object
  it closes over; that object is named by the key under which \<open>performAction\<close> found it
  (an entry of the map is never replaced by another object and never removed).

  The counter is a JavaScript number that starts at 1000 and is only ever incremented by
  one; it is modelled as a natural number (increments of a double are exact below \<open>2^53\<close>).
\<close>

record state =
  vpsDatabase :: "string \<rightharpoonup> vps"
  vpsIdCounter :: nat
  timers :: "(nat \<times> string) list"
  clock :: nat

text \<open>The constructor of \<open>VpsManager\<close>, with no callback pending.\<close>

definition init :: state where
  "init = \<lparr> vpsDatabase = Map.empty, vpsIdCounter = 1000, timers = [], clock = 0 \<rparr>"

subsection \<open>Decimal rendering of the counter in the template literal\<close>

definition digit_char :: "nat \<Rightarrow> char" where
  "digit_char d = char_of (48 + d)"

fun show_nat :: "nat \<Rightarrow> string" where
  "show_nat n = (if n < 10 then [digit_char n] else show_nat (n div 10) @ [digit_char (n mod 10)])"

declare show_nat.simps [simp del]

section \<open>Class \<open>VpsManager\<close>\<close>

text \<open>\<open>getUserVps(userId)\<close>: \<open>this.vpsDatabase.get(userId)\<close>; \<open>undefined\<close> is \<open>None\<close>.\<close>

definition getUserVps :: "state \<Rightarrow> string \<Rightarrow> vps option" where
  "getUserVps st userId = vpsDatabase st userId"

text \<open>
  \<open>createLxc(user, specs)\<close>. The result object \<open>{ success: false, message }\<close> is \<open>Inl message\<close>,
  \<open>{ success: true, vps }\<close> is \<open>Inr vps\<close>. The log line is not modelled.

  The field \<open>owner\<close> holds the user as passed to the call. In the program it is a
  reference to the library's \<open>User\<close> object, whose \<open>username\<close> and \<open>tag\<close> the library
  may later patch in place; its \<open>id\<close> never changes. The session string is computed here,
  once, from the user name at the time of the call. Nothing below reads the user name or
  the tag of a stored owner.
\<close>

definition createLxc :: "state \<Rightarrow> user \<Rightarrow> vps_specs \<Rightarrow> state \<times> (string + vps)" where
  "createLxc st u sp =
     (case getUserVps st (id_user u) of
        Some _ \<Rightarrow> (st, Inl ''User already has a VPS.'')
      | None \<Rightarrow>
          (let vpsId = ''LXC-'' @ show_nat (vpsIdCounter st);
               newVps = \<lparr> id_vps = vpsId, owner = u, specs = sp, status = ''offline'',
                          tmateSession = ''ssh '' @ username u @ ''-'' @ vpsId @ ''@tmate.kexson.host'' \<rparr>
           in (st \<lparr> vpsIdCounter := vpsIdCounter st + 1,
                    vpsDatabase := (vpsDatabase st)(id_user u \<mapsto> newVps) \<rparr>,
               Inr newVps)))"

text \<open>
  \<open>performAction(userId, action)\<close>. The \<open>switch\<close> has three cases and no default. The
  record is mutated in place; the model writes the changed record back under the key it
  was read from. \<open>setTimeout(f, 5000)\<close> appends a callback due 5000 ms from now.
\<close>

definition performAction :: "state \<Rightarrow> string \<Rightarrow> string \<Rightarrow> state \<times> (string + vps)" where
  "performAction st userId action =
     (case getUserVps st userId of
        None \<Rightarrow> (st, Inl ''VPS not found.'')
      | Some v \<Rightarrow>
          if action = ''start'' then
            (st \<lparr> vpsDatabase := (vpsDatabase st)(userId \<mapsto> v \<lparr> status := ''online'' \<rparr>) \<rparr>,
             Inr (v \<lparr> status := ''online'' \<rparr>))
          else if action = ''shutdown'' then
            (st \<lparr> vpsDatabase := (vpsDatabase st)(userId \<mapsto> v \<lparr> status := ''offline'' \<rparr>) \<rparr>,
             Inr (v \<lparr> status := ''offline'' \<rparr>))
          else if action = ''reboot'' then
            (st \<lparr> vpsDatabase := (vpsDatabase st)(userId \<mapsto> v \<lparr> status := ''rebooting'' \<rparr>),
                   timers := timers st @ [(clock st + 5000, userId)] \<rparr>,
             Inr (v \<lparr> status := ''rebooting'' \<rparr>))
          else (st, Inr v))"

subsection \<open>The timer queue of the runtime\<close>

text \<open>The body of the callback, \<open>vps.status = 'online'\<close>, on the object stored under \<open>k\<close>.\<close>

definition fire :: "state \<Rightarrow> string \<Rightarrow> state" where
  "fire st k =
     (case vpsDatabase st k of
        None \<Rightarrow> st
      | Some v \<Rightarrow> st \<lparr> vpsDatabase := (vpsDatabase st)(k \<mapsto> v \<lparr> status := ''online'' \<rparr>) \<rparr>)"

text \<open>
  \<open>d\<close> milliseconds pass with no inbound command: every callback whose due time has been
  reached runs, in registration order (which is due-time order, the delay being constant),
  and leaves the queue.
\<close>

definition advance :: "nat \<Rightarrow> state \<Rightarrow> state" where
  "advance d st =
     (let t = clock st + d;
          due = filter (\<lambda>(w, k). w \<le> t) (timers st);
          rest = filter (\<lambda>(w, k). \<not> w \<le> t) (timers st)
      in foldl fire (st \<lparr> clock := t, timers := rest \<rparr>) (map snd due))"

text \<open>What can happen to the manager: a call of either method, or time passing.\<close>

datatype event = Create user vps_specs | Action string string | Tick nat

fun step :: "state \<Rightarrow> event \<Rightarrow> state" where
  "step st (Create u sp) = fst (createLxc st u sp)"
| "step st (Action userId action) = fst (performAction st userId action)"
| "step st (Tick d) = advance d st"

definition run :: "state \<Rightarrow> event list \<Rightarrow> state" where
  "run st evs = foldl step st evs"


section \<open>String operations used by the message handler\<close>

text \<open>
  Message text is a sequence of code units below 256, one \<open>char\<close> each.
  \<open>String.prototype.trim\<close> strips white space at both ends; below 256 that is
  tab, line feed, vertical tab, form feed, carriage return, space and no-break space.
\<close>

definition is_whitespace :: "char \<Rightarrow> bool" where
  "is_whitespace c = (of_char c \<in> {9, 10, 11, 12, 13, 32, 160 :: nat})"

definition trim :: "string \<Rightarrow> string" where
  "trim s = rev (dropWhile is_whitespace (rev (dropWhile is_whitespace s)))"

text \<open>
  \<open>s.split(/ +/)\<close>: the pieces of \<open>s\<close> between maximal runs of the space character.
  The result is never empty (\<open>"".split(/ +/)\<close> is \<open>[""]\<close>).
\<close>

function split_spaces :: "string \<Rightarrow> string list" where
  "split_spaces s =
     (case dropWhile (\<lambda>c. c \<noteq> CHR '' '') s of
        [] \<Rightarrow> [s]
      | _ # rest \<Rightarrow>
          takeWhile (\<lambda>c. c \<noteq> CHR '' '') s # split_spaces (dropWhile (\<lambda>c. c = CHR '' '') rest))"
  by pat_completeness auto
termination
proof (relation "measure length")
  show "wf (measure length)" by simp
next
  fix s :: string and x rest
  assume "dropWhile (\<lambda>c. c \<noteq> CHR '' '') s = x # rest"
  then have "length rest < length s"
    by (metis length_dropWhile_le length_Cons less_Suc_eq_le not_less)
  moreover have "length (dropWhile (\<lambda>c. c = CHR '' '') rest) \<le> length rest"
    by (rule length_dropWhile_le)
  ultimately show "(dropWhile (\<lambda>c. c = CHR '' '') rest, s) \<in> measure length" by simp
qed

declare split_spaces.simps [simp del]

text \<open>
  \<open>toLowerCase\<close> on code units below 256: \<open>A\<close>--\<open>Z\<close> and the capital letters
  \<open>0xC0\<close>--\<open>0xDE\<close> (except the multiplication sign \<open>0xD7\<close>) move up by 32.
\<close>

definition toLowerCase_char :: "char \<Rightarrow> char" where
  "toLowerCase_char c =
     (let n = of_char c :: nat
      in if (65 \<le> n \<and> n \<le> 90) \<or> (192 \<le> n \<and> n \<le> 222 \<and> n \<noteq> 215)
         then char_of (n + 32) else c)"

definition toLowerCase :: "string \<Rightarrow> string" where
  "toLowerCase s = map toLowerCase_char s"

text \<open>
  \<open>toUpperCase\<close> is applied to \<open>vps.status\<close> only, which the program sets to ASCII literals;
  the model is JavaScript's function on ASCII.
\<close>

definition toUpperCase_char :: "char \<Rightarrow> char" where
  "toUpperCase_char c =
     (let n = of_char c :: nat in if 97 \<le> n \<and> n \<le> 122 then char_of (n - 32) else c)"

definition toUpperCase :: "string \<Rightarrow> string" where
  "toUpperCase s = map toUpperCase_char s"

definition startsWith :: "string \<Rightarrow> string \<Rightarrow> bool" where
  "startsWith s p = (take (length p) s = p)"

section \<open>Slash commands and the \<open>interactionCreate\<close> handler\<close>

text \<open>
  What a handler reads from an interaction: \<open>isChatInputCommand()\<close>, \<open>commandName\<close>,
  \<open>interaction.user\<close>, the four options of \<open>deploy\<close>, and whether the direct message the
  command sends is delivered (\<open>user.send\<close> resolves) or rejected.
\<close>

record interaction =
  isChatInputCommand :: bool
  commandName :: string
  interaction_user :: user
  option_user :: user
  option_ram :: int
  option_disk :: int
  option_cpu :: int
  dm_ok :: bool

text \<open>
  What a handler sends, one constructor per message of the source:
  \<^item> \<open>NotAdminReply\<close>: \<open>reply({ content: 'You are not an admin.', ephemeral: true })\<close>;
  \<^item> \<open>DeferReply\<close>: \<open>deferReply()\<close>;
  \<^item> \<open>DeployErrorReply m\<close>: \<open>editReply('Error: ' + m)\<close>;
  \<^item> \<open>ReadyDm uid v\<close>: the embed sent to the target user, with \<open>v\<close>'s id, specs and session;
  \<^item> \<open>DeployedReply id tag\<close>: \<open>editReply\<close> of the success message;
  \<^item> \<open>DeployedNoDmReply id tag\<close>: \<open>editReply\<close> after the direct message was rejected;
  \<^item> \<open>NoVpsReply\<close>, \<open>CheckDmsReply\<close>, \<open>ManageDm uid id\<close>: the messages of \<open>manage\<close>.
\<close>

datatype ireply =
    NotAdminReply
  | DeferReply
  | DeployErrorReply string
  | ReadyDm string vps
  | DeployedReply string string
  | DeployedNoDmReply string string
  | NoVpsReply
  | CheckDmsReply
  | ManageDm string string

text \<open>
  \<open>execute\<close> of the \<open>deploy\<close> command. The handler is taken to run without another
  handler or callback interleaving at its \<open>await\<close>s.
\<close>

definition deploy_execute :: "state \<Rightarrow> interaction \<Rightarrow> state \<times> ireply list" where
  "deploy_execute st i =
     (let u = option_user i;
          sp = \<lparr> ram = option_ram i, disk = option_disk i, cpu = option_cpu i \<rparr>
      in case createLxc st u sp of
           (st', Inl message) \<Rightarrow> (st', [DeferReply, DeployErrorReply message])
         | (st', Inr v) \<Rightarrow>
             (st', DeferReply #
                (if dm_ok i then [ReadyDm (id_user u) v, DeployedReply (id_vps v) (tag u)]
                 else [DeployedNoDmReply (id_vps v) (tag u)])))"

text \<open>\<open>execute\<close> of the \<open>manage\<close> command.\<close>

definition manage_execute :: "state \<Rightarrow> interaction \<Rightarrow> state \<times> ireply list" where
  "manage_execute st i =
     (case getUserVps st (id_user (interaction_user i)) of
        None \<Rightarrow> (st, [NoVpsReply])
      | Some v \<Rightarrow>
          (st, CheckDmsReply #
             (if dm_ok i then [ManageDm (id_user (interaction_user i)) (id_vps v)] else [])))"

text \<open>The array \<open>commands\<close>: \<open>data.name\<close>, \<open>category\<close> and \<open>execute\<close> of each entry.\<close>

record command =
  name :: string
  category :: string
  execute :: "state \<Rightarrow> interaction \<Rightarrow> state \<times> ireply list"

definition commands :: "command list" where
  "commands =
     [\<lparr> name = ''deploy'', category = ''admin'', execute = deploy_execute \<rparr>,
      \<lparr> name = ''manage'', category = ''user'', execute = manage_execute \<rparr>]"

text \<open>
  The \<open>interactionCreate\<close> listener; \<open>ADMIN_ID\<close> is the environment variable. No modelled
  operation throws, so the \<open>catch\<close> branch around \<open>execute\<close> has no counterpart.
\<close>

definition interactionCreate :: "string \<Rightarrow> state \<Rightarrow> interaction \<Rightarrow> state \<times> ireply list" where
  "interactionCreate ADMIN_ID st i =
     (if \<not> isChatInputCommand i then (st, [])
      else case find (\<lambda>cmd. name cmd = commandName i) commands of
             None \<Rightarrow> (st, [])
           | Some cmd \<Rightarrow>
               if category cmd = ''admin'' \<and> id_user (interaction_user i) \<noteq> ADMIN_ID
               then (st, [NotAdminReply])
               else execute cmd st i)"

section \<open>The \<open>messageCreate\<close> handler\<close>

record message =
  author :: user
  channel_is_DM :: bool
  content :: string

text \<open>
  The direct messages sent by \<open>reply\<close>, one constructor per \<open>case\<close> of the \<open>switch\<close>:
  the help text, the status line (id and upper-cased status), the three confirmations
  (id), the SSH line (id and session), and
  \<open>Unknown command. Type `!help` to see available commands.\<close>
  A rejected send is caught and logged, so it changes nothing else.
\<close>

datatype dm_reply =
    HelpReply
  | StatusReply string string
  | RebootReply string
  | ShutdownReply string
  | StartReply string
  | SshReply string string
  | UnknownReply

text \<open>
  \<open>message.content.trim().split(/ +/)\<close>, then \<open>args.shift().toLowerCase()\<close>;
  \<open>None\<close> stands for \<open>shift\<close> on an empty array (where \<open>toLowerCase\<close> would throw).
\<close>

definition commandName_of :: "string \<Rightarrow> string option" where
  "commandName_of text =
     (case split_spaces (trim text) of
        [] \<Rightarrow> None
      | a # args \<Rightarrow> Some (toLowerCase a))"

definition messageCreate :: "state \<Rightarrow> message \<Rightarrow> state \<times> dm_reply list" where
  "messageCreate st m =
     (if bot_user (author m) \<or> \<not> channel_is_DM m then (st, [])
      else case getUserVps st (id_user (author m)) of
             None \<Rightarrow> (st, [])
           | Some v \<Rightarrow>
               (case commandName_of (content m) of
                  None \<Rightarrow> (st, [])
                | Some c \<Rightarrow>
                    if \<not> startsWith c ''!'' then (st, [])
                    else if c = ''!help'' then (st, [HelpReply])
                    else if c = ''!status'' then
                      (st, [StatusReply (id_vps v) (toUpperCase (status v))])
                    else if c = ''!reboot'' then
                      (fst (performAction st (id_user (author m)) ''reboot''),
                       [RebootReply (id_vps v)])
                    else if c = ''!shutdown'' then
                      (fst (performAction st (id_user (author m)) ''shutdown''),
                       [ShutdownReply (id_vps v)])
                    else if c = ''!start'' then
                      (fst (performAction st (id_user (author m)) ''start''),
                       [StartReply (id_vps v)])
                    else if c = ''!ssh'' then (st, [SshReply (id_vps v) (tmateSession v)])
                    else (st, [UnknownReply])))"

section \<open>Auxiliary definitions for the proofs\<close>

text \<open>Reading a decimal numeral back, used to show that \<open>show_nat\<close> is injective.\<close>

definition digit_val :: "char \<Rightarrow> nat" where "digit_val c = of_char c - 48"

definition read_nat :: "string \<Rightarrow> nat" where
  "read_nat s = foldl (\<lambda>a c. 10 * a + digit_val c) 0 s"

text \<open>Two versions of a record that agree on every field except \<open>status\<close>, and a pair of states in which every record of the first survives in the second that way.\<close>

definition same_fixed :: "vps \<Rightarrow> vps \<Rightarrow> bool" where
  "same_fixed v v' =
     (id_vps v' = id_vps v \<and> owner v' = owner v \<and> specs v' = specs v \<and>
      tmateSession v' = tmateSession v)"

definition only_status :: "state \<Rightarrow> state \<Rightarrow> bool" where
  "only_status st st' =
     (\<forall>k v. vpsDatabase st k = Some v \<longrightarrow> (\<exists>v'. vpsDatabase st' k = Some v' \<and> same_fixed v v'))"

text \<open>The object literal \<open>newVps\<close> of \<open>createLxc\<close> with \<open>vpsId\<close> expanded.\<close>

definition new_vps :: "state \<Rightarrow> user \<Rightarrow> vps_specs \<Rightarrow> vps" where
  "new_vps st u sp =
     \<lparr> id_vps = ''LXC-'' @ show_nat (vpsIdCounter st), owner = u, specs = sp, status = ''offline'',
       tmateSession = ''ssh '' @ username u @ ''-'' @ (''LXC-'' @ show_nat (vpsIdCounter st)) @ ''@tmate.kexson.host'' \<rparr>"

text \<open>What holds of every record of a registry built from \<open>init\<close>: it is stored under its owner's id, its id is \<open>LXC-\<close> followed by a counter value already used, and its session string is \<open>ssh\<close>, some name, a dash, the id and the host suffix; and no id occurs under two keys.\<close>

definition record_wf :: "nat \<Rightarrow> string \<Rightarrow> vps \<Rightarrow> bool" where
  "record_wf c k v =
     (id_user (owner v) = k \<and>
      (\<exists>n < c. id_vps v = ''LXC-'' @ show_nat n) \<and>
      (\<exists>nm. tmateSession v = ''ssh '' @ nm @ ''-'' @ id_vps v @ ''@tmate.kexson.host''))"

definition registry_inv :: "state \<Rightarrow> bool" where
  "registry_inv st =
     ((\<forall>k v. vpsDatabase st k = Some v \<longrightarrow> record_wf (vpsIdCounter st) k v) \<and>
      (\<forall>k1 k2 v1 v2. vpsDatabase st k1 = Some v1 \<longrightarrow> vpsDatabase st k2 = Some v2 \<longrightarrow>
         id_vps v1 = id_vps v2 \<longrightarrow> k1 = k2))"

text \<open>Events that are a lifecycle action on the record stored under \<open>k\<close>, and the time that passes during a list of events.\<close>

fun is_action_on :: "string \<Rightarrow> event \<Rightarrow> bool" where
  "is_action_on k (Action k' a) = (k' = k)"
| "is_action_on k _ = False"

fun elapsed :: "event list \<Rightarrow> nat" where
  "elapsed [] = 0"
| "elapsed (Tick d # evs) = d + elapsed evs"
| "elapsed (_ # evs) = elapsed evs"

text \<open>After a reboot at time \<open>T - 5000\<close>: the record is already online, or still rebooting with the callback due at \<open>T\<close> in the queue and \<open>T\<close> not yet reached.\<close>

definition pending :: "nat \<Rightarrow> string \<Rightarrow> vps \<Rightarrow> state \<Rightarrow> bool" where
  "pending T k v st =
     (vpsDatabase st k = Some (v \<lparr> status := ''online'' \<rparr>) \<or>
      (vpsDatabase st k = Some (v \<lparr> status := ''rebooting'' \<rparr>) \<and> (T, k) \<in> set (timers st) \<and> clock st < T))"

text \<open>Sample users, specs, records, states and requests for the concrete instances below.\<close>

definition alice :: user where
  "alice = \<lparr> id_user = ''1001'', username = ''alice'', tag = ''alice#0001'', bot_user = False \<rparr>"

definition bob :: user where
  "bob = \<lparr> id_user = ''1002'', username = ''bob'', tag = ''bob#0002'', bot_user = False \<rparr>"

definition small :: vps_specs where
  "small = \<lparr> ram = 512, disk = 10, cpu = 1 \<rparr>"

definition alice_vps :: vps where
  "alice_vps = \<lparr> id_vps = ''LXC-1000'', owner = alice, specs = small, status = ''offline'',
                 tmateSession = ''ssh alice-LXC-1000@tmate.kexson.host'' \<rparr>"

definition alice_state :: state where
  "alice_state = \<lparr> vpsDatabase = [''1001'' \<mapsto> alice_vps], vpsIdCounter = 1001, timers = [], clock = 0 \<rparr>"

definition bob_vps :: vps where
  "bob_vps = \<lparr> id_vps = ''LXC-1001'', owner = bob, specs = small, status = ''offline'',
               tmateSession = ''ssh bob-LXC-1001@tmate.kexson.host'' \<rparr>"

definition both_state :: state where
  "both_state = \<lparr> vpsDatabase = [''1001'' \<mapsto> alice_vps, ''1002'' \<mapsto> bob_vps], vpsIdCounter = 1002,
                   timers = [], clock = 0 \<rparr>"

definition alice_renamed :: user where
  "alice_renamed = \<lparr> id_user = ''1001'', username = ''alicia'', tag = ''alicia#0001'', bot_user = False \<rparr>"

definition admin :: user where
  "admin = \<lparr> id_user = ''9000'', username = ''root'', tag = ''root#0000'', bot_user = False \<rparr>"

definition deploy_by_bob :: interaction where
  "deploy_by_bob = \<lparr> isChatInputCommand = True, commandName = ''deploy'', interaction_user = bob,
       option_user = bob, option_ram = 512, option_disk = 10, option_cpu = 1, dm_ok = True \<rparr>"

definition deploy_zero :: interaction where
  "deploy_zero = \<lparr> isChatInputCommand = True, commandName = ''deploy'', interaction_user = admin,
       option_user = alice, option_ram = 0, option_disk = - 5, option_cpu = 0, dm_ok = True \<rparr>"

definition hello_msg :: message where
  "hello_msg = \<lparr> author = alice, channel_is_DM = True, content = ''hello'' \<rparr>"

definition restart_msg :: message where
  "restart_msg = \<lparr> author = alice, channel_is_DM = True, content = '' !Restart  now '' \<rparr>"

section \<open>Decimal rendering is injective and free of dashes\<close>

lemma digit_val_digit_char: "d < 10 \<Longrightarrow> digit_val (digit_char d) = d"
  by (simp add: digit_val_def digit_char_def)

lemma read_nat_snoc: "read_nat (s @ [c]) = 10 * read_nat s + digit_val c"
  by (simp add: read_nat_def)

lemma read_show_nat: "read_nat (show_nat n) = n"
proof (induction n rule: show_nat.induct)
  case (1 n)
  show ?case
  proof (cases "n < 10")
    case True
    then show ?thesis by (simp add: show_nat.simps[of n] read_nat_def digit_val_digit_char)
  next
    case False
    with 1 show ?thesis
      by (simp add: show_nat.simps[of n] read_nat_snoc digit_val_digit_char)
  qed
qed

lemma show_nat_inj: "show_nat m = show_nat n \<Longrightarrow> m = n"
  by (metis read_show_nat)

lemma digit_char_not_dash: "d < 10 \<Longrightarrow> digit_char d \<noteq> CHR ''-''"
proof
  assume d: "d < 10" and e: "digit_char d = CHR ''-''"
  from e have "(of_char (digit_char d) :: nat) = of_char (CHR ''-'')" by simp
  with d show False by (simp add: digit_char_def)
qed

lemma dash_notin_show_nat: "CHR ''-'' \<notin> set (show_nat n)"
proof (induction n rule: show_nat.induct)
  case (1 n)
  show ?case
  proof (cases "n < 10")
    case True
    then show ?thesis using digit_char_not_dash[of n] by (simp add: show_nat.simps[of n])
  next
    case False
    with 1 show ?thesis using digit_char_not_dash[of "n mod 10"]
      by (simp add: show_nat.simps[of n])
  qed
qed

lemma split_at_last:
  assumes "as @ c # d1 = bs @ c # d2" "c \<notin> set d1" "c \<notin> set d2"
  shows "as = bs \<and> d1 = d2"
  using assms
  by (auto simp: append_eq_append_conv2 Cons_eq_append_conv append_eq_Cons_conv)

lemma show_nat_1000: "show_nat 1000 = ''1000''"
  by code_simp

lemma show_nat_1001: "show_nat 1001 = ''1001''"
  by code_simp

section \<open>Only the status of a stored record ever changes\<close>

lemma only_status_refl: "only_status st st"
  by (simp add: only_status_def same_fixed_def)

lemma only_status_trans: "only_status a b \<Longrightarrow> only_status b c \<Longrightarrow> only_status a c"
  unfolding only_status_def same_fixed_def by fastforce

lemma only_status_create: "only_status st (fst (createLxc st u sp))"
  by (cases "getUserVps st (id_user u)")
     (auto simp: createLxc_def Let_def only_status_def same_fixed_def getUserVps_def)

lemma only_status_action: "only_status st (fst (performAction st k a))"
  by (cases "getUserVps st k")
     (auto simp: performAction_def only_status_def same_fixed_def getUserVps_def)

lemma only_status_fire: "only_status st (fire st k)"
  by (cases "vpsDatabase st k") (auto simp: fire_def only_status_def same_fixed_def)

lemma only_status_fires: "only_status st (foldl fire st ks)"
proof (induction ks arbitrary: st)
  case Nil
  show ?case by (simp add: only_status_refl)
next
  case (Cons k ks)
  show ?case using only_status_trans[OF only_status_fire Cons.IH] by simp
qed

lemma only_status_advance: "only_status st (advance d st)"
proof -
  have "only_status st (st \<lparr> clock := clock st + d, timers := filter (\<lambda>(w, k). \<not> w \<le> clock st + d) (timers st) \<rparr>)"
    by (simp add: only_status_def same_fixed_def)
  then show ?thesis
    unfolding advance_def Let_def by (rule only_status_trans[OF _ only_status_fires])
qed

lemma only_status_step: "only_status st (step st e)"
  by (cases e) (simp_all add: only_status_create only_status_action only_status_advance)

lemma only_status_run: "only_status st (run st evs)"
proof (induction evs arbitrary: st)
  case Nil
  show ?case by (simp add: run_def only_status_refl)
next
  case (Cons e evs)
  have "only_status (step st e) (run (step st e) evs)" by (rule Cons.IH)
  with only_status_step[of st e] show ?case
    by (simp add: run_def only_status_trans)
qed

section \<open>Invariant of the registry\<close>

lemma createLxc_fresh:
  "getUserVps st (id_user u) = None \<Longrightarrow>
   createLxc st u sp =
     (st \<lparr> vpsIdCounter := vpsIdCounter st + 1,
           vpsDatabase := (vpsDatabase st)(id_user u \<mapsto> new_vps st u sp) \<rparr>, Inr (new_vps st u sp))"
  by (simp add: createLxc_def new_vps_def Let_def)

lemma record_wf_mono: "record_wf c k v \<Longrightarrow> c \<le> c' \<Longrightarrow> record_wf c' k v"
  unfolding record_wf_def by (meson less_le_trans)

lemma record_wf_new: "record_wf (vpsIdCounter st + 1) (id_user u) (new_vps st u sp)"
proof -
  have "\<exists>n < vpsIdCounter st + 1. id_vps (new_vps st u sp) = ''LXC-'' @ show_nat n"
    by (intro exI[of _ "vpsIdCounter st"]) (simp add: new_vps_def)
  moreover have "\<exists>nm. tmateSession (new_vps st u sp) =
      ''ssh '' @ nm @ ''-'' @ id_vps (new_vps st u sp) @ ''@tmate.kexson.host''"
    by (intro exI[of _ "username u"]) (simp add: new_vps_def)
  moreover have "id_user (owner (new_vps st u sp)) = id_user u" by (simp add: new_vps_def)
  ultimately show ?thesis unfolding record_wf_def by blast
qed

lemma record_wf_old_id:
  "record_wf c k v \<Longrightarrow> id_vps v \<noteq> ''LXC-'' @ show_nat c"
proof
  assume wf: "record_wf c k v" and e: "id_vps v = ''LXC-'' @ show_nat c"
  from wf obtain n where n: "n < c" "id_vps v = ''LXC-'' @ show_nat n"
    unfolding record_wf_def by blast
  from n(2) e have "show_nat n = show_nat c" by simp
  then have "n = c" by (rule show_nat_inj)
  with n(1) show False by simp
qed

lemma registry_inv_init: "registry_inv init"
  by (simp add: registry_inv_def init_def)

lemma registry_inv_create:
  assumes "registry_inv st"
  shows "registry_inv (fst (createLxc st u sp))"
proof (cases "getUserVps st (id_user u)")
  case (Some a)
  with assms show ?thesis by (simp add: createLxc_def)
next
  case None
  let ?nv = "new_vps st u sp"
  let ?st' = "st \<lparr> vpsIdCounter := vpsIdCounter st + 1, vpsDatabase := (vpsDatabase st)(id_user u \<mapsto> ?nv) \<rparr>"
  have wf: "\<And>k v. vpsDatabase st k = Some v \<Longrightarrow> record_wf (vpsIdCounter st) k v"
    using assms unfolding registry_inv_def by blast
  have dist: "\<And>k1 k2 v1 v2. vpsDatabase st k1 = Some v1 \<Longrightarrow> vpsDatabase st k2 = Some v2 \<Longrightarrow>
         id_vps v1 = id_vps v2 \<Longrightarrow> k1 = k2"
    using assms unfolding registry_inv_def by blast
  have nid: "id_vps ?nv = ''LXC-'' @ show_nat (vpsIdCounter st)" by (simp add: new_vps_def)
  have "registry_inv ?st'"
    unfolding registry_inv_def
  proof (intro conjI allI impI)
    fix k v assume "vpsDatabase ?st' k = Some v"
    then show "record_wf (vpsIdCounter ?st') k v"
      using record_wf_new[of st u sp] record_wf_mono[OF wf, of k v "vpsIdCounter st + 1"]
      by (auto split: if_splits)
  next
    fix k1 k2 v1 v2
    assume "vpsDatabase ?st' k1 = Some v1" "vpsDatabase ?st' k2 = Some v2" "id_vps v1 = id_vps v2"
    then show "k1 = k2"
      using record_wf_old_id[OF wf] dist nid by (auto split: if_splits)
  qed
  with None show ?thesis by (simp add: createLxc_fresh)
qed

lemma registry_inv_only_status:
  assumes "registry_inv st" "only_status st st'" "dom (vpsDatabase st') \<subseteq> dom (vpsDatabase st)"
    "vpsIdCounter st' = vpsIdCounter st"
  shows "registry_inv st'"
proof -
  have older: "\<And>k v'. vpsDatabase st' k = Some v' \<Longrightarrow> \<exists>v. vpsDatabase st k = Some v \<and> same_fixed v v'"
  proof -
    fix k v' assume a: "vpsDatabase st' k = Some v'"
    with assms(3) obtain v where v: "vpsDatabase st k = Some v" by blast
    with assms(2) a have "same_fixed v v'" unfolding only_status_def by fastforce
    with v show "\<exists>v. vpsDatabase st k = Some v \<and> same_fixed v v'" by blast
  qed
  show ?thesis unfolding registry_inv_def
  proof (intro conjI allI impI)
    fix k v' assume "vpsDatabase st' k = Some v'"
    from older[OF this] obtain v where "vpsDatabase st k = Some v" "same_fixed v v'" by blast
    with assms(1,4) show "record_wf (vpsIdCounter st') k v'"
      unfolding registry_inv_def record_wf_def same_fixed_def by auto
  next
    fix k1 k2 v1 v2
    assume a: "vpsDatabase st' k1 = Some v1" "vpsDatabase st' k2 = Some v2" "id_vps v1 = id_vps v2"
    from older[OF a(1)] obtain w1 where w1: "vpsDatabase st k1 = Some w1" "same_fixed w1 v1" by blast
    from older[OF a(2)] obtain w2 where w2: "vpsDatabase st k2 = Some w2" "same_fixed w2 v2" by blast
    from w1 w2 a(3) have "id_vps w1 = id_vps w2" by (simp add: same_fixed_def)
    with assms(1) w1 w2 show "k1 = k2" unfolding registry_inv_def by blast
  qed
qed

lemma dom_action: "dom (vpsDatabase (fst (performAction st k a))) \<subseteq> dom (vpsDatabase st)"
  by (cases "getUserVps st k") (auto simp: performAction_def getUserVps_def)

lemma counter_action: "vpsIdCounter (fst (performAction st k a)) = vpsIdCounter st"
  by (cases "getUserVps st k") (auto simp: performAction_def)

lemma dom_fire: "dom (vpsDatabase (fire st k)) = dom (vpsDatabase st)"
  by (cases "vpsDatabase st k") (auto simp: fire_def)

lemma counter_fire: "vpsIdCounter (fire st k) = vpsIdCounter st"
  by (cases "vpsDatabase st k") (auto simp: fire_def)

lemma timers_fire: "timers (fire st k) = timers st"
  by (cases "vpsDatabase st k") (auto simp: fire_def)

lemma clock_fire: "clock (fire st k) = clock st"
  by (cases "vpsDatabase st k") (auto simp: fire_def)

lemma dom_fires: "dom (vpsDatabase (foldl fire st ks)) = dom (vpsDatabase st)"
  by (induction ks arbitrary: st) (simp_all add: dom_fire)

lemma counter_fires: "vpsIdCounter (foldl fire st ks) = vpsIdCounter st"
  by (induction ks arbitrary: st) (simp_all add: counter_fire)

lemma timers_fires: "timers (foldl fire st ks) = timers st"
  by (induction ks arbitrary: st) (simp_all add: timers_fire)

lemma clock_fires: "clock (foldl fire st ks) = clock st"
  by (induction ks arbitrary: st) (simp_all add: clock_fire)

lemma dom_advance: "dom (vpsDatabase (advance d st)) = dom (vpsDatabase st)"
  by (simp add: advance_def Let_def dom_fires)

lemma counter_advance: "vpsIdCounter (advance d st) = vpsIdCounter st"
  by (simp add: advance_def Let_def counter_fires)

lemma clock_advance: "clock (advance d st) = clock st + d"
  by (simp add: advance_def Let_def clock_fires)

lemma registry_inv_step: "registry_inv st \<Longrightarrow> registry_inv (step st e)"
proof (cases e)
  case (Create u sp)
  assume "registry_inv st"
  with Create show ?thesis by (simp add: registry_inv_create)
next
  case (Action k a)
  assume "registry_inv st"
  with Action show ?thesis
    using registry_inv_only_status[OF _ only_status_action dom_action counter_action] by simp
next
  case (Tick d)
  assume "registry_inv st"
  with Tick show ?thesis
    using registry_inv_only_status[OF _ only_status_advance _ counter_advance] by (simp add: dom_advance)
qed

lemma registry_inv_run: "registry_inv st \<Longrightarrow> registry_inv (run st evs)"
proof (induction evs arbitrary: st)
  case Nil
  then show ?case by (simp add: run_def)
next
  case (Cons e evs)
  from Cons.IH[OF registry_inv_step[OF Cons.prems]] show ?case by (simp add: run_def)
qed

lemma credential_unique:
  assumes "registry_inv st" "vpsDatabase st k1 = Some v1" "vpsDatabase st k2 = Some v2"
    "tmateSession v1 = tmateSession v2"
  shows "k1 = k2"
proof -
  from assms(1,2) obtain n1 nm1 where n1: "id_vps v1 = ''LXC-'' @ show_nat n1"
    and t1: "tmateSession v1 = ''ssh '' @ nm1 @ ''-'' @ id_vps v1 @ ''@tmate.kexson.host''"
    unfolding registry_inv_def record_wf_def by blast
  from assms(1,3) obtain n2 nm2 where n2: "id_vps v2 = ''LXC-'' @ show_nat n2"
    and t2: "tmateSession v2 = ''ssh '' @ nm2 @ ''-'' @ id_vps v2 @ ''@tmate.kexson.host''"
    unfolding registry_inv_def record_wf_def by blast
  from t1 t2 n1 n2 assms(4)
  have "(nm1 @ ''-LXC'') @ CHR ''-'' # show_nat n1 = (nm2 @ ''-LXC'') @ CHR ''-'' # show_nat n2"
    by simp
  from split_at_last[OF this dash_notin_show_nat dash_notin_show_nat]
  have "show_nat n1 = show_nat n2" by (rule conjunct2)
  with n1 n2 have "id_vps v1 = id_vps v2" by simp
  with assms(1-3) show ?thesis unfolding registry_inv_def by blast
qed

section \<open>The timer queue\<close>

lemma lookup_fire:
  "vpsDatabase (fire st k') k =
     (if k' = k then map_option (\<lambda>w. w \<lparr> status := ''online'' \<rparr>) (vpsDatabase st k) else vpsDatabase st k)"
  by (cases "vpsDatabase st k'") (auto simp: fire_def)

lemma lookup_fires:
  "vpsDatabase (foldl fire st ks) k =
     (if k \<in> set ks then map_option (\<lambda>w. w \<lparr> status := ''online'' \<rparr>) (vpsDatabase st k) else vpsDatabase st k)"
proof (induction ks arbitrary: st)
  case Nil
  show ?case by simp
next
  case (Cons a ks)
  show ?case by (simp add: Cons.IH lookup_fire option.map_comp comp_def)
qed

lemma lookup_advance:
  "vpsDatabase (advance d st) k =
     (if \<exists>w. (w, k) \<in> set (timers st) \<and> w \<le> clock st + d
      then map_option (\<lambda>w. w \<lparr> status := ''online'' \<rparr>) (vpsDatabase st k) else vpsDatabase st k)"
  by (force simp add: advance_def Let_def lookup_fires)

lemma timers_advance:
  "timers (advance d st) = filter (\<lambda>(w, k). \<not> w \<le> clock st + d) (timers st)"
  by (simp add: advance_def Let_def timers_fires)

lemma pending_reboot:
  assumes "getUserVps st k = Some v"
  shows "pending (clock st + 5000) k v (fst (performAction st k ''reboot''))"
  using assms by (simp add: performAction_def pending_def)

lemma pending_create:
  assumes "pending T k v st"
  shows "pending T k v (fst (createLxc st u sp))"
proof (cases "getUserVps st (id_user u)")
  case (Some a)
  with assms show ?thesis by (simp add: createLxc_def)
next
  case None
  with assms have "id_user u \<noteq> k" by (auto simp: pending_def getUserVps_def)
  with assms None show ?thesis by (simp add: createLxc_fresh pending_def)
qed

lemma pending_action:
  assumes "pending T k v st" "k' \<noteq> k"
  shows "pending T k v (fst (performAction st k' a))"
  using assms by (cases "getUserVps st k'") (auto simp: performAction_def pending_def)

lemma pending_advance:
  assumes "pending T k v st"
  shows "pending T k v (advance d st)"
proof (cases "vpsDatabase st k = Some (v \<lparr> status := ''online'' \<rparr>)")
  case True
  then show ?thesis by (simp add: pending_def lookup_advance)
next
  case False
  with assms have r: "vpsDatabase st k = Some (v \<lparr> status := ''rebooting'' \<rparr>)"
    and t: "(T, k) \<in> set (timers st)" and c: "clock st < T"
    by (auto simp: pending_def)
  show ?thesis
  proof (cases "T \<le> clock st + d")
    case True
    with t have "\<exists>w. (w, k) \<in> set (timers st) \<and> w \<le> clock st + d" by blast
    with r show ?thesis by (simp add: pending_def lookup_advance)
  next
    case False
    with t have "(T, k) \<in> set (timers (advance d st))" by (simp add: timers_advance)
    moreover from False have "clock (advance d st) < T" by (simp add: clock_advance)
    moreover from r have "vpsDatabase (advance d st) k = Some (v \<lparr> status := ''online'' \<rparr>) \<or>
         vpsDatabase (advance d st) k = Some (v \<lparr> status := ''rebooting'' \<rparr>)"
      by (simp add: lookup_advance)
    ultimately show ?thesis by (auto simp: pending_def)
  qed
qed

lemma pending_step:
  "pending T k v st \<Longrightarrow> \<not> is_action_on k e \<Longrightarrow> pending T k v (step st e)"
  by (cases e) (simp_all add: pending_create pending_action pending_advance)

lemma clock_step: "clock (step st e) = clock st + elapsed [e]"
proof (cases e)
  case (Create u sp)
  then show ?thesis by (cases "getUserVps st (id_user u)") (simp_all add: createLxc_def Let_def)
next
  case (Action k a)
  then show ?thesis by (cases "getUserVps st k") (simp_all add: performAction_def)
next
  case (Tick d)
  then show ?thesis by (simp add: clock_advance)
qed

lemma elapsed_Cons: "elapsed (e # evs) = elapsed [e] + elapsed evs"
  by (cases e) simp_all

lemma clock_run: "clock (run st evs) = clock st + elapsed evs"
proof (induction evs arbitrary: st)
  case Nil
  show ?case by (simp add: run_def)
next
  case (Cons e evs)
  have "clock (run (step st e) evs) = clock (step st e) + elapsed evs" by (rule Cons.IH)
  then show ?case using elapsed_Cons[of e evs] by (simp add: run_def clock_step)
qed

lemma pending_run:
  "pending T k v st \<Longrightarrow> \<forall>e \<in> set evs. \<not> is_action_on k e \<Longrightarrow> pending T k v (run st evs)"
proof (induction evs arbitrary: st)
  case Nil
  then show ?case by (simp add: run_def)
next
  case (Cons e evs)
  from Cons.prems have "pending T k v (step st e)" by (simp add: pending_step)
  from Cons.IH[OF this] Cons.prems(2) show ?case by (simp add: run_def)
qed

section \<open>Concrete states\<close>

lemma createLxc_alice: "createLxc init alice small = (alice_state, Inr alice_vps)"
  by (simp add: createLxc_def getUserVps_def init_def alice_def alice_vps_def alice_state_def show_nat_1000 Let_def)

lemma run_alice: "run init [Create alice small] = alice_state"
  by (simp add: run_def createLxc_alice)

lemma getUserVps_alice: "getUserVps alice_state ''1001'' = Some alice_vps"
  by (simp add: getUserVps_def alice_state_def)

lemma createLxc_bob: "createLxc alice_state bob small = (both_state, Inr bob_vps)"
  by (simp add: createLxc_def getUserVps_def alice_state_def bob_def bob_vps_def both_state_def
      show_nat_1001 Let_def)

lemma run_both: "run init [Create alice small, Create bob small] = both_state"
  by (simp add: run_def createLxc_alice createLxc_bob)

lemma split_spaces_not_Nil: "split_spaces s \<noteq> []"
  by (subst split_spaces.simps) (simp split: list.split)

lemma commandName_of_total: "\<exists>c. commandName_of text = Some c"
  using split_spaces_not_Nil[of "trim text"]
  by (cases "split_spaces (trim text)") (simp_all add: commandName_of_def)

lemma commandName_of_hello: "commandName_of ''hello'' = Some ''hello''"
  by code_simp

lemma commandName_of_restart: "commandName_of '' !Restart  now '' = Some ''!restart''"
  by code_simp

section \<open>Properties of the registry and the lifecycle controller\<close>

text \<open>
  C1. When the owner already has a record, \<open>createLxc\<close> returns the failure
  \<open>User already has a VPS.\<close> and the state, hence the stored record, is exactly what it
  was. In every registry built from the initial one by any calls and any passage of time,
  two stored records with the same owner id are the same record under the same key: an
  owner never has more than one.
\<close>

theorem one_record_per_owner:
  "(getUserVps st (id_user u) = Some v \<longrightarrow> createLxc st u sp = (st, Inl ''User already has a VPS.'')) \<and>
   (vpsDatabase (run init evs) k1 = Some v1 \<longrightarrow> vpsDatabase (run init evs) k2 = Some v2 \<longrightarrow>
      id_user (owner v1) = id_user (owner v2) \<longrightarrow> k1 = k2 \<and> v1 = v2)"
proof (intro conjI impI)
  assume "getUserVps st (id_user u) = Some v"
  then show "createLxc st u sp = (st, Inl ''User already has a VPS.'')" by (simp add: createLxc_def)
next
  assume a: "vpsDatabase (run init evs) k1 = Some v1" "vpsDatabase (run init evs) k2 = Some v2"
    "id_user (owner v1) = id_user (owner v2)"
  have "registry_inv (run init evs)" by (rule registry_inv_run[OF registry_inv_init])
  with a have "id_user (owner v1) = k1" "id_user (owner v2) = k2"
    unfolding registry_inv_def record_wf_def by blast+
  with a show "k1 = k2" by simp
  with a show "v1 = v2" by simp
qed

theorem one_record_per_owner_witness:
  "getUserVps alice_state (id_user alice) = Some alice_vps \<and>
   createLxc alice_state alice small = (alice_state, Inl ''User already has a VPS.'') \<and>
   vpsDatabase (run init [Create alice small]) ''1001'' = Some alice_vps \<and>
   id_user (owner alice_vps) = id_user (owner alice_vps)"
proof -
  have h: "getUserVps alice_state (id_user alice) = Some alice_vps"
    using getUserVps_alice by (simp add: alice_def)
  from one_record_per_owner[of alice_state alice alice_vps small "[Create alice small]" "''1001''" alice_vps "''1001''" alice_vps] h
  show ?thesis by (simp add: run_alice alice_state_def)
qed

text \<open>
  C2. When the owner has no record, \<open>createLxc\<close> succeeds, adds one record under the
  owner's id and changes no other key, the record is offline, belongs to that user, carries
  the given specs and has the id \<open>LXC-\<close> followed by the decimal counter value, and the
  counter grows by one. In every registry built from the initial one, records under
  different keys have different ids.
\<close>

theorem createLxc_fresh_record:
  "(getUserVps st (id_user u) = None \<longrightarrow>
      (\<exists>v. createLxc st u sp =
             (st \<lparr> vpsIdCounter := vpsIdCounter st + 1,
                   vpsDatabase := (vpsDatabase st)(id_user u \<mapsto> v) \<rparr>, Inr v) \<and>
           id_vps v = ''LXC-'' @ show_nat (vpsIdCounter st) \<and> status v = ''offline'' \<and>
           owner v = u \<and> specs v = sp)) \<and>
   (vpsDatabase (run init evs) k1 = Some v1 \<longrightarrow> vpsDatabase (run init evs) k2 = Some v2 \<longrightarrow>
      k1 \<noteq> k2 \<longrightarrow> id_vps v1 \<noteq> id_vps v2)"
proof (intro conjI impI)
  assume "getUserVps st (id_user u) = None"
  from createLxc_fresh[OF this, of sp]
  show "\<exists>v. createLxc st u sp =
             (st \<lparr> vpsIdCounter := vpsIdCounter st + 1,
                   vpsDatabase := (vpsDatabase st)(id_user u \<mapsto> v) \<rparr>, Inr v) \<and>
           id_vps v = ''LXC-'' @ show_nat (vpsIdCounter st) \<and> status v = ''offline'' \<and>
           owner v = u \<and> specs v = sp"
    by (intro exI[of _ "new_vps st u sp"]) (simp add: new_vps_def)
next
  assume a: "vpsDatabase (run init evs) k1 = Some v1" "vpsDatabase (run init evs) k2 = Some v2"
    "k1 \<noteq> k2"
  have "registry_inv (run init evs)" by (rule registry_inv_run[OF registry_inv_init])
  with a show "id_vps v1 \<noteq> id_vps v2" unfolding registry_inv_def by blast
qed

theorem createLxc_fresh_record_witness:
  "getUserVps init (id_user alice) = None \<and>
   createLxc init alice small = (alice_state, Inr alice_vps) \<and>
   vpsDatabase (run init [Create alice small, Create bob small]) ''1001'' = Some alice_vps \<and>
   vpsDatabase (run init [Create alice small, Create bob small]) ''1002'' = Some bob_vps \<and>
   ''1001'' \<noteq> ''1002'' \<and> id_vps alice_vps \<noteq> id_vps bob_vps"
proof -
  have h: "getUserVps init (id_user alice) = None" by (simp add: getUserVps_def init_def)
  have a: "vpsDatabase (run init [Create alice small, Create bob small]) ''1001'' = Some alice_vps"
    by (simp add: run_both both_state_def)
  have b: "vpsDatabase (run init [Create alice small, Create bob small]) ''1002'' = Some bob_vps"
    by (simp add: run_both both_state_def)
  have c: "''1001'' \<noteq> ''1002''" by simp
  from createLxc_fresh_record[of init alice small "[Create alice small, Create bob small]"
      "''1001''" alice_vps "''1002''" bob_vps] a b c
  have "id_vps alice_vps \<noteq> id_vps bob_vps" by blast
  with h a b c createLxc_alice show ?thesis by blast
qed

text \<open>
  C3. For a record in any status, \<open>start\<close> leaves it online and \<open>shutdown\<close> leaves
  it offline; doing either twice gives the same state as doing it once; and start,
  shutdown, start ends online.
\<close>

theorem start_shutdown_idempotent:
  assumes "getUserVps st userId = Some v"
  shows "getUserVps (fst (performAction st userId ''start'')) userId = Some (v \<lparr> status := ''online'' \<rparr>) \<and>
         getUserVps (fst (performAction st userId ''shutdown'')) userId = Some (v \<lparr> status := ''offline'' \<rparr>) \<and>
         fst (performAction (fst (performAction st userId ''start'')) userId ''start'') =
           fst (performAction st userId ''start'') \<and>
         fst (performAction (fst (performAction st userId ''shutdown'')) userId ''shutdown'') =
           fst (performAction st userId ''shutdown'') \<and>
         getUserVps (run st [Action userId ''start'', Action userId ''shutdown'', Action userId ''start'']) userId =
           Some (v \<lparr> status := ''online'' \<rparr>)"
  using assms by (simp add: performAction_def getUserVps_def run_def)

theorem start_shutdown_idempotent_witness:
  "getUserVps alice_state ''1001'' = Some alice_vps \<and>
   getUserVps (fst (performAction alice_state ''1001'' ''start'')) ''1001'' = Some (alice_vps \<lparr> status := ''online'' \<rparr>) \<and>
   getUserVps (run alice_state [Action ''1001'' ''start'', Action ''1001'' ''shutdown'', Action ''1001'' ''start'']) ''1001'' =
           Some (alice_vps \<lparr> status := ''online'' \<rparr>)"
  using start_shutdown_idempotent[OF getUserVps_alice] getUserVps_alice by simp

text \<open>
  C4. \<open>reboot\<close> on an existing record returns with the record in status
  \<open>rebooting\<close> and a callback queued 5000 ms (5 seconds) ahead. After any events that
  contain no lifecycle action on that record and during which at least 5000 ms pass, the
  record is online. Callbacks are taken to run as soon as they are due.
\<close>

theorem reboot_then_online:
  assumes "getUserVps st userId = Some v"
    and "\<forall>e \<in> set evs. \<not> is_action_on userId e"
    and "5000 \<le> elapsed evs"
  shows "performAction st userId ''reboot'' =
           (st \<lparr> vpsDatabase := (vpsDatabase st)(userId \<mapsto> v \<lparr> status := ''rebooting'' \<rparr>),
                 timers := timers st @ [(clock st + 5000, userId)] \<rparr>,
            Inr (v \<lparr> status := ''rebooting'' \<rparr>)) \<and>
         getUserVps (fst (performAction st userId ''reboot'')) userId = Some (v \<lparr> status := ''rebooting'' \<rparr>) \<and>
         getUserVps (run (fst (performAction st userId ''reboot'')) evs) userId = Some (v \<lparr> status := ''online'' \<rparr>)"
proof -
  let ?st1 = "fst (performAction st userId ''reboot'')"
  have p: "pending (clock st + 5000) userId v (run ?st1 evs)"
    using pending_run[OF pending_reboot[OF assms(1)] assms(2)] .
  have "clock ?st1 = clock st" using assms(1) by (simp add: performAction_def)
  with assms(3) have "clock st + 5000 \<le> clock (run ?st1 evs)" by (simp add: clock_run)
  with p have "vpsDatabase (run ?st1 evs) userId = Some (v \<lparr> status := ''online'' \<rparr>)"
    by (auto simp: pending_def)
  with assms(1) show ?thesis by (simp add: performAction_def getUserVps_def)
qed

theorem reboot_then_online_witness:
  "getUserVps alice_state ''1001'' = Some alice_vps \<and>
   filter (is_action_on ''1001'') [Create bob small, Tick 2000, Action ''1002'' ''start'', Tick 3000] = [] \<and>
   5000 \<le> elapsed [Create bob small, Tick 2000, Action ''1002'' ''start'', Tick 3000] \<and>
   getUserVps (fst (performAction alice_state ''1001'' ''reboot'')) ''1001'' =
     Some (alice_vps \<lparr> status := ''rebooting'' \<rparr>) \<and>
   getUserVps (run (fst (performAction alice_state ''1001'' ''reboot''))
       [Create bob small, Tick 2000, Action ''1002'' ''start'', Tick 3000]) ''1001'' =
     Some (alice_vps \<lparr> status := ''online'' \<rparr>)"
proof -
  have a: "\<forall>e \<in> set [Create bob small, Tick 2000, Action ''1002'' ''start'', Tick 3000]. \<not> is_action_on ''1001'' e"
    by simp
  have a': "filter (is_action_on ''1001'') [Create bob small, Tick 2000, Action ''1002'' ''start'', Tick 3000] = []"
    by simp
  have b: "5000 \<le> elapsed [Create bob small, Tick 2000, Action ''1002'' ''start'', Tick 3000]"
    by simp
  from reboot_then_online[OF getUserVps_alice a b] getUserVps_alice a' b
  show ?thesis by blast
qed

lemma still_rebooting_before_delay:
  "getUserVps (run (fst (performAction alice_state ''1001'' ''reboot'')) [Tick 4999]) ''1001'' =
     Some (alice_vps \<lparr> status := ''rebooting'' \<rparr>)"
  by (simp add: run_def performAction_def getUserVps_def alice_state_def advance_def Let_def)

text \<open>
  C5. For an owner id with no record and any action, \<open>performAction\<close> returns the
  failure \<open>VPS not found.\<close> and the state is unchanged.
\<close>

theorem performAction_not_found:
  "getUserVps st userId = None \<Longrightarrow> performAction st userId action = (st, Inl ''VPS not found.'')"
  by (simp add: performAction_def)

theorem performAction_not_found_witness:
  "getUserVps alice_state ''1002'' = None \<and>
   performAction alice_state ''1002'' ''shutdown'' = (alice_state, Inl ''VPS not found.'')"
proof -
  have h: "getUserVps alice_state ''1002'' = None" by (simp add: getUserVps_def alice_state_def)
  from performAction_not_found[OF h] h show ?thesis by simp
qed

text \<open>
  C6, as the code has it. \<open>createLxc\<close> computes the session string once, as
  \<open>ssh\<close>, the user name the user passed to it has at that moment, a dash, the new
  record id and the host suffix: it is determined by that user name and the record id.
  No call and no timer callback changes the session string of a stored record. Within
  one registry built from the initial one, two records whose owners have different ids
  carry different session strings.
\<close>

theorem credential_from_username_at_creation:
  "(getUserVps st (id_user u) = None \<longrightarrow>
      (\<exists>v. snd (createLxc st u sp) = Inr v \<and>
           vpsDatabase (fst (createLxc st u sp)) (id_user u) = Some v \<and>
           tmateSession v = ''ssh '' @ username u @ ''-'' @ id_vps v @ ''@tmate.kexson.host'')) \<and>
   (vpsDatabase st k = Some w \<longrightarrow>
      map_option tmateSession (vpsDatabase (run st evs) k) = Some (tmateSession w)) \<and>
   (vpsDatabase (run init evs') k1 = Some v1 \<longrightarrow> vpsDatabase (run init evs') k2 = Some v2 \<longrightarrow>
      id_user (owner v1) \<noteq> id_user (owner v2) \<longrightarrow> tmateSession v1 \<noteq> tmateSession v2)"
proof (intro conjI impI)
  assume "getUserVps st (id_user u) = None"
  from createLxc_fresh[OF this, of sp]
  show "\<exists>v. snd (createLxc st u sp) = Inr v \<and>
           vpsDatabase (fst (createLxc st u sp)) (id_user u) = Some v \<and>
           tmateSession v = ''ssh '' @ username u @ ''-'' @ id_vps v @ ''@tmate.kexson.host''"
    by (intro exI[of _ "new_vps st u sp"]) (simp add: new_vps_def)
next
  assume "vpsDatabase st k = Some w"
  with only_status_run[of st evs] obtain w' where "vpsDatabase (run st evs) k = Some w'" "same_fixed w w'"
    unfolding only_status_def by blast
  then show "map_option tmateSession (vpsDatabase (run st evs) k) = Some (tmateSession w)"
    by (simp add: same_fixed_def)
next
  assume a: "vpsDatabase (run init evs') k1 = Some v1" "vpsDatabase (run init evs') k2 = Some v2"
    "id_user (owner v1) \<noteq> id_user (owner v2)"
  have inv: "registry_inv (run init evs')" by (rule registry_inv_run[OF registry_inv_init])
  show "tmateSession v1 \<noteq> tmateSession v2"
  proof
    assume "tmateSession v1 = tmateSession v2"
    from credential_unique[OF inv a(1,2) this] a show False by auto
  qed
qed

theorem credential_from_username_at_creation_witness:
  "getUserVps init (id_user alice) = None \<and>
   snd (createLxc init alice small) = Inr alice_vps \<and>
   tmateSession alice_vps = ''ssh '' @ username alice @ ''-'' @ id_vps alice_vps @ ''@tmate.kexson.host'' \<and>
   vpsDatabase alice_state ''1001'' = Some alice_vps \<and>
   map_option tmateSession (vpsDatabase (run alice_state
       [Action ''1001'' ''reboot'', Tick 5000, Action ''1001'' ''shutdown'']) ''1001'') =
     Some (tmateSession alice_vps) \<and>
   vpsDatabase (run init [Create alice small, Create bob small]) ''1001'' = Some alice_vps \<and>
   vpsDatabase (run init [Create alice small, Create bob small]) ''1002'' = Some bob_vps \<and>
   id_user (owner alice_vps) \<noteq> id_user (owner bob_vps) \<and>
   tmateSession alice_vps \<noteq> tmateSession bob_vps"
proof -
  have h: "getUserVps init (id_user alice) = None" by (simp add: getUserVps_def init_def)
  have r: "snd (createLxc init alice small) = Inr alice_vps" by (simp add: createLxc_alice)
  have s: "vpsDatabase alice_state ''1001'' = Some alice_vps" by (simp add: alice_state_def)
  have a: "vpsDatabase (run init [Create alice small, Create bob small]) ''1001'' = Some alice_vps"
    by (simp add: run_both both_state_def)
  have b: "vpsDatabase (run init [Create alice small, Create bob small]) ''1002'' = Some bob_vps"
    by (simp add: run_both both_state_def)
  have c: "id_user (owner alice_vps) \<noteq> id_user (owner bob_vps)"
    by (simp add: alice_vps_def bob_vps_def alice_def bob_def)
  from credential_from_username_at_creation[of init alice small] h r
  have t: "tmateSession alice_vps = ''ssh '' @ username alice @ ''-'' @ id_vps alice_vps @ ''@tmate.kexson.host''"
    by auto
  from credential_from_username_at_creation[of alice_state alice small "''1001''" alice_vps
      "[Action ''1001'' ''reboot'', Tick 5000, Action ''1001'' ''shutdown'']"] s
  have k: "map_option tmateSession (vpsDatabase (run alice_state
       [Action ''1001'' ''reboot'', Tick 5000, Action ''1001'' ''shutdown'']) ''1001'') =
     Some (tmateSession alice_vps)"
    by blast
  from credential_from_username_at_creation[of init alice small "''1001''" alice_vps "[]"
      "[Create alice small, Create bob small]" "''1001''" alice_vps "''1002''" bob_vps] a b c
  have "tmateSession alice_vps \<noteq> tmateSession bob_vps" by blast
  with h r s a b c t k show ?thesis by blast
qed

text \<open>
  C6 fails as stated: the session string is not determined by the owner id and the
  record id. Two fresh managers each create the first record for a user with id
  \<open>1001\<close>; the record id is \<open>LXC-1000\<close> both times, the user name differs, and so
  does the session string.
\<close>

theorem credential_differs_for_same_owner_id_and_id:
  "id_user alice = id_user alice_renamed \<and>
   map_sum id id_vps (snd (createLxc init alice small)) = Inr ''LXC-1000'' \<and>
   map_sum id id_vps (snd (createLxc init alice_renamed small)) = Inr ''LXC-1000'' \<and>
   map_sum id tmateSession (snd (createLxc init alice small)) = Inr ''ssh alice-LXC-1000@tmate.kexson.host'' \<and>
   map_sum id tmateSession (snd (createLxc init alice_renamed small)) = Inr ''ssh alicia-LXC-1000@tmate.kexson.host''"
  by (simp add: createLxc_def getUserVps_def init_def alice_def alice_renamed_def show_nat_1000 Let_def)

text \<open>
  C7, as the code has it. \<open>createLxc\<close> stores the specs it is given, whatever
  integers they are, and no sequence of calls and timer callbacks changes the specs of a
  stored record.
\<close>

theorem specs_stored_verbatim_and_kept:
  "(getUserVps st (id_user u) = None \<longrightarrow>
      map_option specs (vpsDatabase (fst (createLxc st u sp)) (id_user u)) = Some sp) \<and>
   (vpsDatabase st k = Some v \<longrightarrow> map_option specs (vpsDatabase (run st evs) k) = Some (specs v))"
proof (intro conjI impI)
  assume "getUserVps st (id_user u) = None"
  then show "map_option specs (vpsDatabase (fst (createLxc st u sp)) (id_user u)) = Some sp"
    by (simp add: createLxc_fresh new_vps_def)
next
  assume "vpsDatabase st k = Some v"
  with only_status_run[of st evs] obtain v' where "vpsDatabase (run st evs) k = Some v'" "same_fixed v v'"
    unfolding only_status_def by blast
  then show "map_option specs (vpsDatabase (run st evs) k) = Some (specs v)"
    by (simp add: same_fixed_def)
qed

theorem specs_stored_verbatim_and_kept_witness:
  "getUserVps init (id_user alice) = None \<and>
   map_option specs (vpsDatabase (fst (createLxc init alice small)) (id_user alice)) = Some small \<and>
   vpsDatabase alice_state ''1001'' = Some alice_vps \<and>
   map_option specs (vpsDatabase (run alice_state [Action ''1001'' ''reboot'', Tick 5000, Action ''1001'' ''shutdown'']) ''1001'') =
     Some (specs alice_vps)"
proof -
  have h: "getUserVps init (id_user alice) = None" by (simp add: getUserVps_def init_def)
  have a: "vpsDatabase alice_state ''1001'' = Some alice_vps" by (simp add: alice_state_def)
  from specs_stored_verbatim_and_kept[of init alice small] h
  have b: "map_option specs (vpsDatabase (fst (createLxc init alice small)) (id_user alice)) = Some small"
    by blast
  from specs_stored_verbatim_and_kept[of alice_state alice small "''1001''" alice_vps
      "[Action ''1001'' ''reboot'', Tick 5000, Action ''1001'' ''shutdown'']"] a
  have "map_option specs (vpsDatabase (run alice_state
          [Action ''1001'' ''reboot'', Tick 5000, Action ''1001'' ''shutdown'']) ''1001'') =
        Some (specs alice_vps)"
    by blast
  with h a b show ?thesis by blast
qed

text \<open>
  C7 fails as stated: nothing checks that the specs are positive. The administrator
  deploys with ram 0, disk -5 and cpu 0, and the record is stored with these specs.
\<close>

theorem deploy_stores_nonpositive_specs:
  "map_option specs (vpsDatabase (fst (interactionCreate ''9000'' init deploy_zero)) ''1001'') =
     Some \<lparr> ram = 0, disk = - 5, cpu = 0 \<rparr>"
  by (simp add: interactionCreate_def commands_def deploy_zero_def admin_def deploy_execute_def
      createLxc_def getUserVps_def init_def alice_def Let_def)

text \<open>
  C10. For an existing record and an action other than \<open>start\<close>, \<open>shutdown\<close> and
  \<open>reboot\<close>, \<open>performAction\<close> returns success with the record as it was, and the state
  (every record, the counter and the timer queue) is unchanged.
\<close>

theorem performAction_other_action:
  "getUserVps st userId = Some v \<Longrightarrow> action \<noteq> ''start'' \<Longrightarrow> action \<noteq> ''shutdown'' \<Longrightarrow>
   action \<noteq> ''reboot'' \<Longrightarrow> performAction st userId action = (st, Inr v)"
  by (simp add: performAction_def)

theorem performAction_other_action_witness:
  "getUserVps alice_state ''1001'' = Some alice_vps \<and> ''resize'' \<noteq> ''start'' \<and>
   ''resize'' \<noteq> ''shutdown'' \<and> ''resize'' \<noteq> ''reboot'' \<and>
   performAction alice_state ''1001'' ''resize'' = (alice_state, Inr alice_vps)"
  using performAction_other_action[OF getUserVps_alice, of "''resize''"] getUserVps_alice by simp

section \<open>Properties of the command router\<close>

text \<open>
  C8. A \<open>deploy\<close> slash command from a user whose id is not \<open>ADMIN_ID\<close> gets the
  single reply \<open>You are not an admin.\<close>; \<open>execute\<close> is not run, so there is no deferred
  reply, no result of \<open>createLxc\<close> reported, and the state is unchanged.
\<close>

theorem deploy_denied_for_non_admin:
  "isChatInputCommand i \<Longrightarrow> commandName i = ''deploy'' \<Longrightarrow> id_user (interaction_user i) \<noteq> ADMIN_ID \<Longrightarrow>
   interactionCreate ADMIN_ID st i = (st, [NotAdminReply])"
  by (simp add: interactionCreate_def commands_def)

theorem deploy_denied_for_non_admin_witness:
  "isChatInputCommand deploy_by_bob \<and> commandName deploy_by_bob = ''deploy'' \<and>
   id_user (interaction_user deploy_by_bob) \<noteq> ''9000'' \<and>
   interactionCreate ''9000'' alice_state deploy_by_bob = (alice_state, [NotAdminReply])"
proof -
  have a: "isChatInputCommand deploy_by_bob" by (simp add: deploy_by_bob_def)
  have b: "commandName deploy_by_bob = ''deploy''" by (simp add: deploy_by_bob_def)
  have c: "id_user (interaction_user deploy_by_bob) \<noteq> ''9000''" by (simp add: deploy_by_bob_def bob_def)
  from deploy_denied_for_non_admin[OF a b c] a b c show ?thesis by blast
qed

text \<open>
  C9, as the code has it. For a direct message from a user who is not a bot and owns a
  record, let the command be the first space-separated word of the trimmed text in lower
  case. If the command is none of \<open>!help\<close>, \<open>!status\<close>, \<open>!reboot\<close>, \<open>!shutdown\<close>,
  \<open>!start\<close>, \<open>!ssh\<close>, the state is unchanged, and the handler sends the unknown-command
  reply when the command starts with \<open>!\<close> and nothing at all when it does not.
\<close>

theorem unknown_command_reply:
  assumes "\<not> bot_user (author m)" and "channel_is_DM m"
    and "getUserVps st (id_user (author m)) = Some v"
    and "commandName_of (content m) = Some c"
    and "c \<notin> {''!help'', ''!status'', ''!reboot'', ''!shutdown'', ''!start'', ''!ssh''}"
  shows "messageCreate st m = (st, if startsWith c ''!'' then [UnknownReply] else [])"
  using assms by (simp add: messageCreate_def)

theorem unknown_command_reply_witness:
  "\<not> bot_user (author restart_msg) \<and> channel_is_DM restart_msg \<and>
   getUserVps alice_state (id_user (author restart_msg)) = Some alice_vps \<and>
   commandName_of (content restart_msg) = Some ''!restart'' \<and>
   ''!restart'' \<notin> {''!help'', ''!status'', ''!reboot'', ''!shutdown'', ''!start'', ''!ssh''} \<and>
   messageCreate alice_state restart_msg = (alice_state, [UnknownReply])"
proof -
  have a: "\<not> bot_user (author restart_msg)" by (simp add: restart_msg_def alice_def)
  have b: "channel_is_DM restart_msg" by (simp add: restart_msg_def)
  have c: "getUserVps alice_state (id_user (author restart_msg)) = Some alice_vps"
    using getUserVps_alice by (simp add: restart_msg_def alice_def)
  have d: "commandName_of (content restart_msg) = Some ''!restart''"
    by (simp add: restart_msg_def commandName_of_restart)
  have e: "''!restart'' \<notin> {''!help'', ''!status'', ''!reboot'', ''!shutdown'', ''!start'', ''!ssh''}"
    by simp
  have "messageCreate alice_state restart_msg = (alice_state, [UnknownReply])"
    using unknown_command_reply[OF a b c d e] by (simp add: startsWith_def)
  with a b c d e show ?thesis by blast
qed

text \<open>
  C9 fails as stated: the owner of a record sends \<open>hello\<close>, which is not a recognized
  command, and gets no reply.
\<close>

theorem no_reply_without_bang:
  "\<not> bot_user (author hello_msg) \<and> channel_is_DM hello_msg \<and>
   getUserVps alice_state (id_user (author hello_msg)) = Some alice_vps \<and>
   content hello_msg \<notin> {''status'', ''reboot'', ''shutdown'', ''start'', ''ssh'', ''help'',
                           ''!status'', ''!reboot'', ''!shutdown'', ''!start'', ''!ssh'', ''!help''} \<and>
   messageCreate alice_state hello_msg = (alice_state, []) \<and>
   messageCreate alice_state hello_msg \<noteq> (alice_state, [UnknownReply])"
  using getUserVps_alice
  by (simp add: messageCreate_def hello_msg_def alice_def commandName_of_hello startsWith_def)

end
